theory Spec2Isabelle
  imports Main "HOL-Library.Word" "HOL-Library.AList" "HOL-Library.Monad_Syntax"
begin

section \<open>Greek word numerology: the script of index.html\<close>

text \<open>
  The page holds two letter tables, \<open>vowels\<close> and \<open>consonants\<close>, their union
  \<open>alphabet_dict\<close>, and three functions: \<open>reduceNumber\<close> (repeated digit sum),
  \<open>sumValues\<close> (sum of the table values of the letters of a word) and \<open>calculate\<close>
  (one table row of six numbers per word). This theory embeds them and proves the
  properties stated for them.
\<close>

subsection \<open>Strings\<close>

text \<open>
  A JavaScript string is a sequence of UTF-16 code units. \<open>for (const letter of word)\<close>
  runs the string iterator, which yields one string per code point: a lead surrogate
  followed by a trail surrogate comes out as one string of two code units, every other code
  unit (an unpaired surrogate too) as a string of one.
\<close>

type_synonym code_unit = "16 word"
type_synonym jsstring = "code_unit list"

definition isLeadSurrogate :: "code_unit \<Rightarrow> bool" where
  "isLeadSurrogate u \<longleftrightarrow> 0xD800 \<le> u \<and> u \<le> 0xDBFF"

definition isTrailSurrogate :: "code_unit \<Rightarrow> bool" where
  "isTrailSurrogate u \<longleftrightarrow> 0xDC00 \<le> u \<and> u \<le> 0xDFFF"

fun string_iterator :: "jsstring \<Rightarrow> jsstring list" where
  "string_iterator [] = []"
| "string_iterator [u] = [[u]]"
| "string_iterator (u # v # us) =
     (if isLeadSurrogate u \<and> isTrailSurrogate v
      then [u, v] # string_iterator us
      else [u] # string_iterator (v # us))"

subsection \<open>The letter tables\<close>

text \<open>
  An object literal is kept as the list of its own properties in the order they are
  written; reading \<open>table[letter]\<close> is \<^const>\<open>map_of\<close>, and \<open>None\<close> stands for
  \<open>undefined\<close>. The keys are the Greek capitals, each a single code unit:
  \<open>0x0391\<close> is Alpha, \<open>0x03A9\<close> is Omega, and \<open>0x03A2\<close> is not assigned.

  A property that is not the object's own is looked for in \<open>Object.prototype\<close>, whose
  property names (\<open>constructor\<close>, \<open>toString\<close>, \<open>valueOf\<close>, \<open>hasOwnProperty\<close>,
  \<open>__proto__\<close> and the like) are all longer than two code units. The iterator yields
  strings of one or two code units (\<open>string_iterator_length\<close> below), so that lookup
  finds nothing and is left out.
\<close>

type_synonym table = "(jsstring \<times> nat) list"

definition vowels :: table where
  "vowels =
     [([0x0391], 1), ([0x0395], 5), ([0x0397], 7), ([0x0399], 9),
      ([0x039F], 6), ([0x03A5], 2), ([0x03A9], 6)]"

definition consonants :: table where
  "consonants =
     [([0x0392], 2), ([0x0393], 3), ([0x0394], 4), ([0x0396], 6), ([0x0398], 8),
      ([0x039A], 1), ([0x039B], 2), ([0x039C], 3), ([0x039D], 4),
      ([0x039E], 5), ([0x03A0], 7), ([0x03A1], 8), ([0x03A3], 9), ([0x03A4], 1),
      ([0x03A6], 3), ([0x03A7], 4), ([0x03A8], 5)]"

text \<open>
  The spread \<open>{ ...vowels, ...consonants }\<close> starts from an empty object and copies the
  properties of each source in turn: a key already present keeps its place and takes the new
  value, a new key goes to the end.
\<close>

definition spread :: "table \<Rightarrow> table \<Rightarrow> table" where
  "spread obj src = foldl (\<lambda>acc (k, v). AList.update k v acc) obj src"

definition alphabet_dict :: table where
  "alphabet_dict = spread (spread [] vowels) consonants"

subsection \<open>Numbers\<close>

text \<open>
  A JavaScript Number is a double. The script only ever holds non-negative integers and,
  once a string that is not a digit has been converted, \<open>NaN\<close>. \<open>Whole n\<close> is the Number
  whose value is the integer \<open>n\<close>. Every integer up to \<open>2 ^ 53\<close> is a Number;
  \<open>MAX_SAFE_INTEGER\<close> is JavaScript's name for \<open>2 ^ 53 - 1\<close>. Above it a Number has 53
  significant bits, so only some integers are Numbers (\<open>10 ^ 21 = 2 ^ 21 * 5 ^ 21\<close> is
  one, since \<open>5 ^ 21 < 2 ^ 53\<close>).

  \<open>round_double v\<close> is the Number an integer \<open>v\<close> is rounded to, to the nearest and on a tie
  to the one with an even significand: \<open>e\<close> is the number of bits beyond 53, \<open>q\<close> the
  leading 53 bits and \<open>r\<close> the rest. An integer \<open>n\<close> is a Number when
  \<open>round_double n = n\<close>. (Beyond the largest double the rounding gives Infinity; no such
  value is ever compared equal to a Number here.)
\<close>

datatype number = Whole nat | NaN

definition MAX_SAFE_INTEGER :: nat where
  "MAX_SAFE_INTEGER = 2 ^ 53 - 1"

function bit_length :: "nat \<Rightarrow> nat" where
  "bit_length n = (if n = 0 then 0 else Suc (bit_length (n div 2)))"
  by pat_completeness auto
termination
  by (relation "measure id") auto

declare bit_length.simps [simp del]

definition round_double :: "nat \<Rightarrow> nat" where
  "round_double v =
     (let e = bit_length v - 53;
          q = v div 2 ^ e;
          r = v mod 2 ^ e
      in if 2 ^ e < 2 * r \<or> (2 * r = 2 ^ e \<and> odd q) then (q + 1) * 2 ^ e else q * 2 ^ e)"

text \<open>
  \<open>a + b\<close> and \<open>a >= b\<close> on Numbers: the sum of two integers is rounded to a Number,
  \<open>NaN\<close> absorbs a sum and fails every comparison.
\<close>

fun plus_number :: "number \<Rightarrow> number \<Rightarrow> number" where
  "plus_number (Whole a) (Whole b) = Whole (round_double (a + b))"
| "plus_number _ _ = NaN"

fun ge_number :: "number \<Rightarrow> number \<Rightarrow> bool" where
  "ge_number (Whole a) (Whole b) = (b \<le> a)"
| "ge_number _ _ = False"

text \<open>
  \<open>n.toString()\<close> prints the shortest decimal that reads back as \<open>n\<close>: digits \<open>s\<close>, as few
  as possible, and a power of ten such that \<open>s * 10 ^ j\<close> rounds to \<open>n\<close>; of several such
  \<open>s\<close> with the same number of digits the one nearest to \<open>n\<close>, and the even one if two are
  equally near. \<open>(2 ** 60).toString()\<close> is \<open>1152921504606847000\<close>, though \<open>2 ^ 60\<close> is
  \<open>1152921504606846976\<close>. \<open>shortest_decimal n\<close> is that value \<open>s * 10 ^ j\<close>.

  Up to \<open>2 ^ 53\<close> every integer is a Number and rounds to itself, and no decimal with
  fewer digits rounds to it, so the value is \<open>n\<close>. Above, with
  \<open>nd = length (decimal n)\<close> the number of digits of \<open>n\<close>: if \<open>10 ^ nd\<close> rounds to
  \<open>n\<close>, one digit is enough (the double nearest to \<open>10 ^ 23\<close> is below it and prints as
  \<open>1e+23\<close>). Otherwise the value has \<open>nd\<close> digits as well, and for \<open>k = 1, 2, ...\<close>
  leading digits the only multiples of \<open>10 ^ (nd - k)\<close> that can round to \<open>n\<close> are the
  one just below or at \<open>n\<close> and the next one; \<open>accept\<close> keeps a multiple whose \<open>s\<close>
  has \<open>k\<close> digits and which rounds to \<open>n\<close>, \<open>pick\<close> takes the nearer of the two, and
  \<open>shortest_from\<close> stops at the first \<open>k\<close> that has one. An integer that is not a
  Number has no candidate and is left as it is.
\<close>

definition accept :: "nat \<Rightarrow> nat \<Rightarrow> nat \<Rightarrow> nat \<Rightarrow> nat list" where
  "accept x k j s =
     (if 10 ^ (k - 1) \<le> s \<and> s < 10 ^ k \<and> round_double (s * 10 ^ j) = x
      then [s * 10 ^ j] else [])"

definition candidates :: "nat \<Rightarrow> nat \<Rightarrow> nat \<Rightarrow> nat list" where
  "candidates x k j = accept x k j (x div 10 ^ j) @ accept x k j (x div 10 ^ j + 1)"

fun pick :: "nat \<Rightarrow> nat \<Rightarrow> nat list \<Rightarrow> nat option" where
  "pick x j [] = None"
| "pick x j [v] = Some v"
| "pick x j (lo # hi # _) =
     Some (if x - lo < hi - x then lo
           else if hi - x < x - lo then hi
           else if even (lo div 10 ^ j) then lo else hi)"

function shortest_from :: "nat \<Rightarrow> nat \<Rightarrow> nat \<Rightarrow> nat" where
  "shortest_from x nd k =
     (if nd < k then x
      else case pick x (nd - k) (candidates x k (nd - k)) of
             Some v \<Rightarrow> v
           | None \<Rightarrow> shortest_from x nd (Suc k))"
  by pat_completeness auto
termination
  by (relation "measure (\<lambda>(x, nd, k). Suc nd - k)") auto

declare shortest_from.simps [simp del]

text \<open>
  The printed value is written out in one of two ways. Below \<open>10 ^ 21\<close> it is printed as
  its decimal digits; from \<open>10 ^ 21\<close> on the result is in exponent notation, the
  significant digits with a point after the first, then \<open>e+\<close> and the exponent:
  \<open>(1e21).toString()\<close> is \<open>1e+21\<close>, \<open>(2 ** 70).toString()\<close> is
  \<open>1.1805916207174113e+21\<close>. The code units used: \<open>0x30\<close> to \<open>0x39\<close> are the digits 0
  to 9, \<open>0x2E\<close> is the point, \<open>0x65\<close> is e, \<open>0x2B\<close> is +, and \<open>0x4E 0x61 0x4E\<close>
  spells NaN.
\<close>

definition digit_unit :: "nat \<Rightarrow> code_unit" where
  "digit_unit d = of_nat (48 + d)"

function decimal :: "nat \<Rightarrow> jsstring" where
  "decimal n = (if n < 10 then [digit_unit n] else decimal (n div 10) @ [digit_unit (n mod 10)])"
  by pat_completeness auto
termination
  by (relation "measure id") auto

declare decimal.simps [simp del]

fun strip_zeros :: "jsstring \<Rightarrow> jsstring" where
  "strip_zeros [] = []"
| "strip_zeros (c # cs) =
     (case strip_zeros cs of
        [] \<Rightarrow> (if c = 0x30 then [] else [c])
      | ds \<Rightarrow> c # ds)"

definition exponential :: "nat \<Rightarrow> jsstring" where
  "exponential n =
     (let ds = decimal n;
          e = length ds - 1;
          frac = strip_zeros (tl ds)
      in (if frac = [] then [hd ds] else hd ds # 0x2E # frac) @ [0x65, 0x2B] @ decimal e)"

definition shortest_decimal :: "nat \<Rightarrow> nat" where
  "shortest_decimal n =
     (if n \<le> 2 ^ 53 then n
      else if round_double (10 ^ length (decimal n)) = n then 10 ^ length (decimal n)
      else shortest_from n (length (decimal n)) 1)"

fun Number_toString :: "number \<Rightarrow> jsstring" where
  "Number_toString NaN = [0x4E, 0x61, 0x4E]"
| "Number_toString (Whole n) =
     (if shortest_decimal n < 10 ^ 21 then decimal (shortest_decimal n)
      else exponential (shortest_decimal n))"

text \<open>
  \<open>s.split('')\<close> cuts a string into its code units, each a string of length one, so the
  list of code units itself stands for the resulting array. \<open>Number(digit)\<close> on such a
  string: a decimal digit converts to its value, a white space or line end character to 0,
  and any other single character (\<open>e\<close>, \<open>+\<close>, the point, a letter) to \<open>NaN\<close>.
\<close>

definition is_digit :: "code_unit \<Rightarrow> bool" where
  "is_digit u \<longleftrightarrow> 0x30 \<le> u \<and> u \<le> 0x39"

definition is_space :: "code_unit \<Rightarrow> bool" where
  "is_space u \<longleftrightarrow>
     u \<in> set [0x09, 0x0A, 0x0B, 0x0C, 0x0D, 0x20, 0xA0, 0x1680, 0x2028, 0x2029, 0x202F,
              0x205F, 0x3000, 0xFEFF]
     \<or> (0x2000 \<le> u \<and> u \<le> 0x200A)"

definition Number_of_unit :: "code_unit \<Rightarrow> number" where
  "Number_of_unit u =
     (if is_digit u then Whole (unat u - 48)
      else if is_space u then Whole 0
      else NaN)"

subsection \<open>reduceNumber\<close>

text \<open>
  \<^verbatim>\<open>
  function reduceNumber(n) {
    while (n >= 10) {
      n = n.toString().split('').reduce((sum, digit) => sum + Number(digit), 0);
    }
    return n;
  }
  \<close>
  \<open>digit_step\<close> is the body of the loop: \<open>reduce\<close> folds the code units of the
  printed number from the left, starting from 0. The loop is a recursion in the option
  monad, so that a run that never leaves the loop would be \<open>None\<close>.
\<close>

definition digit_step :: "number \<Rightarrow> number" where
  "digit_step n =
     foldl (\<lambda>sum digit. plus_number sum (Number_of_unit digit)) (Whole 0)
       (Number_toString n)"

partial_function (option) reduceNumber :: "number \<Rightarrow> number option" where
  "reduceNumber n = (if ge_number n (Whole 10) then reduceNumber (digit_step n) else Some n)"

declare reduceNumber.simps [code]

subsection \<open>sumValues\<close>

text \<open>
  \<^verbatim>\<open>
  function sumValues(word, table) {
    let total = 0;
    for (const letter of word) {
      if (table[letter]) {
        total += table[letter];
      }
    }
    return total;
  }
  \<close>
  \<open>if (table[letter])\<close> is taken when the value is neither \<open>undefined\<close> nor 0. The total
  (\<open>tot\<close> below) is a sum of table values, at most 9 for each code unit of the word; no engine holds a
  string long enough for that to leave the exact range, so the total is a \<^typ>\<open>nat\<close>.
\<close>

fun sumValues_loop :: "jsstring list \<Rightarrow> table \<Rightarrow> nat \<Rightarrow> nat" where
  "sumValues_loop [] table tot = tot"
| "sumValues_loop (letter # rest) table tot =
     sumValues_loop rest table
       (case map_of table letter of
          Some v \<Rightarrow> if v \<noteq> 0 then tot + v else tot
        | None \<Rightarrow> tot)"

definition sumValues :: "jsstring \<Rightarrow> table \<Rightarrow> nat" where
  "sumValues word table = sumValues_loop (string_iterator word) table 0"

subsection \<open>calculate: the row of one word\<close>

text \<open>
  \<open>calculate\<close> upper-cases the input and cuts it at white space; that part is not
  modelled. For each of the words it computes three sums and writes a row with the word,
  the sums and their reductions, in this order:
  \<^verbatim>\<open>
  const vowelSum = sumValues(word, vowels);
  const consonantSum = sumValues(word, consonants);
  const fullSum = sumValues(word, alphabet_dict);
  ... ${word} ${vowelSum} ${reduceNumber(vowelSum)} ${consonantSum}
      ${reduceNumber(consonantSum)} ${fullSum} ${reduceNumber(fullSum)}
  \<close>
\<close>

record row =
  row_word :: jsstring
  vowelSum :: nat
  vowelReduced :: number
  consonantSum :: nat
  consonantReduced :: number
  fullSum :: nat
  fullReduced :: number

definition calculate_row :: "jsstring \<Rightarrow> row option" where
  "calculate_row w =
     (let vs = sumValues w vowels;
          cs = sumValues w consonants;
          fs = sumValues w alphabet_dict
      in do {
        vr \<leftarrow> reduceNumber (Whole vs);
        cr \<leftarrow> reduceNumber (Whole cs);
        fr \<leftarrow> reduceNumber (Whole fs);
        Some \<lparr>row_word = w, vowelSum = vs, vowelReduced = vr, consonantSum = cs,
               consonantReduced = cr, fullSum = fs, fullReduced = fr\<rparr>
      })"

subsection \<open>The specification's notions\<close>

text \<open>
  The stated properties speak of the sum of the decimal digits of a number, of repeating
  it until one digit is left, of the closed form of the result, of what one letter
  contributes to a sum, and of the Greek uppercase letters. These definitions follow those
  words, not the script; the theorems below relate the script to them.
\<close>

function digit_sum :: "nat \<Rightarrow> nat" where
  "digit_sum n = (if n < 10 then n else digit_sum (n div 10) + n mod 10)"
  by pat_completeness auto
termination
  by (relation "measure id") auto

declare digit_sum.simps [simp del]

function repeat_digit_sum :: "nat \<Rightarrow> nat" where
  "repeat_digit_sum n = (if n < 10 then n else repeat_digit_sum (digit_sum n))"
  by pat_completeness auto
termination
proof (relation "measure id")
  show "wf (measure id)" by simp
next
  fix n :: nat
  assume big: "\<not> n < 10"
  have le: "digit_sum m \<le> m" for m
  proof (induction m rule: digit_sum.induct)
    case (1 m)
    show ?case
    proof (cases "m < 10")
      case True
      then show ?thesis by (subst digit_sum.simps) simp
    next
      case False
      with 1 have "digit_sum (m div 10) \<le> m div 10" by simp
      with False show ?thesis by (subst digit_sum.simps) simp
    qed
  qed
  have "digit_sum (n div 10) \<le> n div 10" by (rule le)
  moreover have "0 < n div 10" using big by simp
  ultimately have "digit_sum (n div 10) + n mod 10 < n" by arith
  with big have "digit_sum n < n" by (subst digit_sum.simps) simp
  then show "(digit_sum n, n) \<in> measure id" by simp
qed

declare repeat_digit_sum.simps [simp del]

definition digital_root :: "nat \<Rightarrow> nat" where
  "digital_root n = (if n = 0 then 0 else 1 + (n - 1) mod 9)"

definition contribution :: "table \<Rightarrow> jsstring \<Rightarrow> nat" where
  "contribution table letter = (case map_of table letter of Some v \<Rightarrow> v | None \<Rightarrow> 0)"

text \<open>
  The Greek capitals are the code points \<open>0x0391\<close> to \<open>0x03A9\<close> without the unassigned
  \<open>0x03A2\<close>: 24 letters. Latin letters, digits and punctuation are below \<open>0x0080\<close>, the
  Greek lowercase letters start at \<open>0x03B1\<close>, and the accented capitals are outside the
  range as well (\<open>0x0386\<close> to \<open>0x038F\<close>, \<open>0x03AA\<close>, \<open>0x03AB\<close>).
\<close>

fun isGreekCapital :: "jsstring \<Rightarrow> bool" where
  "isGreekCapital [u] \<longleftrightarrow> 0x0391 \<le> u \<and> u \<le> 0x03A9 \<and> u \<noteq> 0x03A2"
| "isGreekCapital _ \<longleftrightarrow> False"

section \<open>Auxiliary facts\<close>

subsection \<open>Digit sums\<close>

lemma digit_sum_le: "digit_sum n \<le> n"
proof (induction n rule: digit_sum.induct)
  case (1 n)
  show ?case
  proof (cases "n < 10")
    case True
    then show ?thesis by (subst digit_sum.simps) simp
  next
    case False
    with 1 have "digit_sum (n div 10) \<le> n div 10" by simp
    with False show ?thesis by (subst digit_sum.simps) simp
  qed
qed

lemma digit_sum_less: "10 \<le> n \<Longrightarrow> digit_sum n < n"
proof -
  assume n: "10 \<le> n"
  have "digit_sum (n div 10) \<le> n div 10" by (rule digit_sum_le)
  moreover have "0 < n div 10" using n by simp
  ultimately have "digit_sum (n div 10) + n mod 10 < n" by arith
  with n show ?thesis by (subst digit_sum.simps) simp
qed

lemma digit_sum_pos: "0 < n \<Longrightarrow> 0 < digit_sum n"
proof (induction n rule: digit_sum.induct)
  case (1 n)
  show ?case
  proof (cases "n < 10")
    case True
    with 1 show ?thesis by (subst digit_sum.simps) simp
  next
    case False
    then have "0 < n div 10" by simp
    with 1 False have "0 < digit_sum (n div 10)" by simp
    with False show ?thesis by (subst digit_sum.simps) simp
  qed
qed

lemma digits_mod9: "(n div 10 + n mod 10) mod 9 = (n::nat) mod 9"
proof -
  have step: "(9 * q + (q + r)) mod 9 = (q + r) mod 9" for q r :: nat
    by (simp only: mod_mult_self4)
  have n_eq: "9 * (n div 10) + (n div 10 + n mod 10) = n"
    by simp
  show ?thesis
    using step [of "n div 10" "n mod 10"] by (simp only: n_eq)
qed

lemma digit_sum_mod9: "digit_sum n mod 9 = n mod 9"
proof (induction n rule: digit_sum.induct)
  case (1 n)
  show ?case
  proof (cases "n < 10")
    case True
    then show ?thesis by (subst digit_sum.simps) simp
  next
    case False
    with 1 have ih: "digit_sum (n div 10) mod 9 = (n div 10) mod 9" by simp
    have "(digit_sum (n div 10) + n mod 10) mod 9 = (digit_sum (n div 10) mod 9 + n mod 10) mod 9"
      by (simp add: mod_add_left_eq)
    also have "\<dots> = ((n div 10) mod 9 + n mod 10) mod 9" by (simp add: ih)
    also have "\<dots> = (n div 10 + n mod 10) mod 9" by (simp add: mod_add_left_eq)
    also have "\<dots> = n mod 9" by (rule digits_mod9)
    finally show ?thesis using False by (subst digit_sum.simps) simp
  qed
qed

lemma digital_root_mod9:
  "0 < n \<Longrightarrow> digital_root n = (if n mod 9 = 0 then 9 else n mod 9)"
proof -
  assume "0 < n"
  then obtain k where k: "n = Suc k" by (cases n) auto
  show ?thesis unfolding k digital_root_def by (simp add: mod_Suc)
qed

lemma repeat_digit_sum_closed: "repeat_digit_sum n = digital_root n"
proof (induction n rule: repeat_digit_sum.induct)
  case (1 n)
  show ?case
  proof (cases "n < 10")
    case True
    then show ?thesis by (subst repeat_digit_sum.simps) (simp add: digital_root_def)
  next
    case False
    with 1 have ih: "repeat_digit_sum (digit_sum n) = digital_root (digit_sum n)" by simp
    have pos: "0 < digit_sum n" using False by (simp add: digit_sum_pos)
    have "digit_sum n mod 9 = n mod 9" by (rule digit_sum_mod9)
    with pos False have "digital_root (digit_sum n) = digital_root n"
      by (simp add: digital_root_mod9)
    with ih False show ?thesis by (subst repeat_digit_sum.simps) simp
  qed
qed

lemma digital_root_range: "0 < n \<Longrightarrow> 1 \<le> digital_root n \<and> digital_root n \<le> 9"
  by (simp add: digital_root_def)

lemma digital_root_le9: "digital_root n \<le> 9"
proof -
  have "(n - 1) mod 9 < 9" by simp
  then have "(n - 1) mod 9 \<le> 8" by linarith
  then show ?thesis by (simp add: digital_root_def)
qed

lemma digital_root_zero: "digital_root n = 0 \<longleftrightarrow> n = 0"
  by (simp add: digital_root_def)

lemma digital_root_small: "n < 10 \<Longrightarrow> digital_root n = n"
  by (cases "n = 0") (simp_all add: digital_root_def)

lemma digital_root_same_mod9: "0 < n \<Longrightarrow> digital_root n mod 9 = n mod 9"
  by (simp add: digital_root_mod9)

lemma digital_root_idem: "digital_root (digital_root n) = digital_root n"
proof -
  have "digital_root n < 10" by (simp add: digital_root_def)
  then show ?thesis by (rule digital_root_small)
qed

lemma digital_root_add: "digital_root (digital_root a + digital_root b) = digital_root (a + b)"
proof (cases "a = 0 \<or> b = 0")
  case True
  then show ?thesis
    by (auto simp: digital_root_idem digital_root_def [of 0])
next
  case False
  then have a: "0 < a" and b: "0 < b" by simp_all
  then have ra: "digital_root a mod 9 = a mod 9" and rb: "digital_root b mod 9 = b mod 9"
    by (simp_all add: digital_root_same_mod9)
  have "(digital_root a + digital_root b) mod 9 = (digital_root a mod 9 + digital_root b mod 9) mod 9"
    by (simp add: mod_add_eq)
  also have "\<dots> = (a mod 9 + b mod 9) mod 9" by (simp only: ra rb)
  also have "\<dots> = (a + b) mod 9" by (simp add: mod_add_eq)
  finally have m: "(digital_root a + digital_root b) mod 9 = (a + b) mod 9" .
  have "0 < digital_root a" using a by (simp add: digital_root_def)
  then have "0 < digital_root a + digital_root b" by simp
  moreover have "0 < a + b" using a by simp
  ultimately show ?thesis by (simp add: digital_root_mod9 m)
qed

subsection \<open>Rounding and the printed value\<close>

lemma MAX_SAFE_INTEGER_le: "n \<le> MAX_SAFE_INTEGER \<Longrightarrow> n \<le> 2 ^ 53"
  by (simp add: MAX_SAFE_INTEGER_def)

lemma bit_length_le: "v < 2 ^ k \<Longrightarrow> bit_length v \<le> k"
proof (induction k arbitrary: v)
  case 0
  then show ?case by (subst bit_length.simps) simp
next
  case (Suc k)
  then have "v div 2 < 2 ^ k" by simp
  then have "bit_length (v div 2) \<le> k" by (rule Suc.IH)
  then show ?case by (subst bit_length.simps) simp
qed

lemma round_double_exact: "v \<le> 2 ^ 53 \<Longrightarrow> round_double v = v"
proof (cases "v = 2 ^ 53")
  case True
  then show ?thesis by (simp add: round_double_def bit_length.simps)
next
  case False
  assume "v \<le> 2 ^ 53"
  with False have "v < 2 ^ 53" by simp
  then have "bit_length v \<le> 53" by (rule bit_length_le)
  then show ?thesis by (simp add: round_double_def)
qed

lemma round_double_10_21: "round_double (10 ^ 21) = 10 ^ 21"
  by (simp add: round_double_def bit_length.simps)

lemma decimal_length_pos: "0 < length (decimal n)"
  by (subst decimal.simps) simp

lemma less_power_length_decimal: "n < 10 ^ length (decimal n)"
proof (induction n rule: decimal.induct)
  case (1 n)
  show ?case
  proof (cases "n < 10")
    case True
    then show ?thesis by (subst decimal.simps) simp
  next
    case False
    with 1 have "n div 10 < 10 ^ length (decimal (n div 10))" by simp
    then have "n < 10 * 10 ^ length (decimal (n div 10))" by simp
    with False show ?thesis by (subst decimal.simps) simp
  qed
qed

lemma length_decimal_le: "n < 10 ^ k \<Longrightarrow> 0 < k \<Longrightarrow> length (decimal n) \<le> k"
proof (induction n arbitrary: k rule: decimal.induct)
  case (1 n)
  show ?case
  proof (cases "n < 10")
    case True
    with "1.prems" show ?thesis by (subst decimal.simps) simp
  next
    case False
    with "1.prems" obtain k' where k: "k = Suc k'" by (cases k) auto
    with False "1.prems" have k': "0 < k'" by (cases k') auto
    from "1.prems" k have "n div 10 < 10 ^ k'" by simp
    with 1 False k' have "length (decimal (n div 10)) \<le> k'" by simp
    with False k show ?thesis by (subst decimal.simps) simp
  qed
qed

lemma accept_mem:
  "v \<in> set (accept x k j s) \<Longrightarrow> v = s * 10 ^ j \<and> 10 ^ (k - 1) \<le> s \<and> s < 10 ^ k"
proof (cases "10 ^ (k - 1) \<le> s \<and> s < 10 ^ k \<and> round_double (s * 10 ^ j) = x")
  case True
  assume "v \<in> set (accept x k j s)"
  with True have "v \<in> set [s * 10 ^ j]"
    unfolding accept_def by (simp only: simp_thms if_True)
  with True show ?thesis by simp
next
  case False
  assume "v \<in> set (accept x k j s)"
  with False have "v \<in> set []"
    unfolding accept_def by (simp only: simp_thms if_False)
  then show ?thesis by simp
qed

lemma accept_bounds: "v \<in> set (accept x k j s) \<Longrightarrow> 0 < v \<and> v < 10 ^ (k + j)"
proof -
  assume "v \<in> set (accept x k j s)"
  then have v: "v = s * 10 ^ j" and lo: "10 ^ (k - 1) \<le> s" and hi: "s < 10 ^ k"
    using accept_mem by blast+
  have "(0::nat) < 10 ^ (k - 1)" by simp
  with lo have "0 < s" by linarith
  then have "0 < v" by (simp add: v)
  moreover have "s * 10 ^ j < 10 ^ k * 10 ^ j" using hi by simp
  then have "v < 10 ^ (k + j)" by (simp add: v power_add)
  ultimately show ?thesis by simp
qed

lemma candidates_bounds: "v \<in> set (candidates x k j) \<Longrightarrow> 0 < v \<and> v < 10 ^ (k + j)"
  using accept_bounds by (auto simp: candidates_def)

lemma pick_mem: "pick x j vs = Some v \<Longrightarrow> v \<in> set vs"
  by (cases "(x, j, vs)" rule: pick.cases) (auto split: if_splits)

lemma shortest_from_pos: "0 < x \<Longrightarrow> 0 < shortest_from x nd k"
proof (induction x nd k rule: shortest_from.induct)
  case (1 x nd k)
  show ?case
  proof (cases "nd < k")
    case True
    with "1.prems" show ?thesis by (subst shortest_from.simps) simp
  next
    case False
    show ?thesis
    proof (cases "pick x (nd - k) (candidates x k (nd - k))")
      case None
      with 1 False show ?thesis by (subst shortest_from.simps) simp
    next
      case (Some v)
      then have "0 < v" using pick_mem candidates_bounds by blast
      with False Some show ?thesis by (subst shortest_from.simps) simp
    qed
  qed
qed

lemma shortest_from_less: "x < 10 ^ nd \<Longrightarrow> shortest_from x nd k < 10 ^ nd"
proof (induction x nd k rule: shortest_from.induct)
  case (1 x nd k)
  show ?case
  proof (cases "nd < k")
    case True
    with "1.prems" show ?thesis by (subst shortest_from.simps) simp
  next
    case False
    show ?thesis
    proof (cases "pick x (nd - k) (candidates x k (nd - k))")
      case None
      with 1 False show ?thesis by (subst shortest_from.simps) simp
    next
      case (Some v)
      then have "v < 10 ^ (k + (nd - k))" using pick_mem candidates_bounds by blast
      with False have "v < 10 ^ nd" by simp
      with False Some show ?thesis by (subst shortest_from.simps) simp
    qed
  qed
qed

lemma shortest_decimal_exact: "n \<le> 2 ^ 53 \<Longrightarrow> shortest_decimal n = n"
  by (simp add: shortest_decimal_def)

lemma shortest_decimal_pos: "0 < n \<Longrightarrow> 0 < shortest_decimal n"
  by (simp add: shortest_decimal_def shortest_from_pos)

lemma shortest_decimal_less: "n < 10 ^ 21 \<Longrightarrow> shortest_decimal n < 10 ^ 21"
proof -
  assume n: "n < 10 ^ 21"
  let ?nd = "length (decimal n)"
  have nd: "?nd \<le> 21" using n by (simp add: length_decimal_le)
  then have p: "(10::nat) ^ ?nd \<le> 10 ^ 21" by (intro power_increasing) simp_all
  have "round_double (10 ^ ?nd) = n \<Longrightarrow> (10::nat) ^ ?nd < 10 ^ 21"
  proof (cases "?nd = 21")
    case True
    assume "round_double (10 ^ ?nd) = n"
    with True n round_double_10_21 show ?thesis by simp
  next
    case False
    with nd have "?nd < 21" by simp
    then show ?thesis by (intro power_strict_increasing) simp_all
  qed
  moreover have "shortest_from n ?nd 1 < 10 ^ 21"
    using shortest_from_less [OF less_power_length_decimal, of n 1] p by linarith
  ultimately show ?thesis
    using n by (simp add: shortest_decimal_def)
qed

subsection \<open>One round of the loop\<close>

lemma digit_sum_bound: "n < 10 ^ k \<Longrightarrow> digit_sum n \<le> 9 * k"
proof (induction k arbitrary: n)
  case 0
  then show ?case by (subst digit_sum.simps) simp
next
  case (Suc k)
  show ?case
  proof (cases "n < 10")
    case True
    then show ?thesis by (subst digit_sum.simps) simp
  next
    case False
    from Suc.prems have "n div 10 < 10 ^ k" by simp
    then have "digit_sum (n div 10) \<le> 9 * k" by (rule Suc.IH)
    moreover have "n mod 10 \<le> 9" by simp
    ultimately have "digit_sum (n div 10) + n mod 10 \<le> 9 * Suc k" by simp
    with False show ?thesis by (subst digit_sum.simps) simp
  qed
qed

lemma digit_sum_printed: "m < 10 ^ 21 \<Longrightarrow> digit_sum m \<le> 189"
  using digit_sum_bound [of m 21] by simp

lemma Number_of_digit: "d < 10 \<Longrightarrow> Number_of_unit (digit_unit d) = Whole d"
proof -
  assume "d < 10"
  then have "d \<in> {0, 1, 2, 3, 4, 5, 6, 7, 8, 9}" by auto
  then show ?thesis
    by (auto simp: digit_unit_def is_digit_def Number_of_unit_def)
qed

lemma plus_number_exact: "a + b \<le> 2 ^ 53 \<Longrightarrow> plus_number (Whole a) (Whole b) = Whole (a + b)"
  by (simp add: round_double_exact)

lemma fold_decimal:
  "a + digit_sum n \<le> 2 ^ 53 \<Longrightarrow>
     foldl (\<lambda>sum digit. plus_number sum (Number_of_unit digit)) (Whole a) (decimal n)
       = Whole (a + digit_sum n)"
proof (induction n arbitrary: a rule: decimal.induct)
  case (1 n)
  let ?add = "\<lambda>sum digit. plus_number sum (Number_of_unit digit)"
  show ?case
  proof (cases "n < 10")
    case True
    then have "digit_sum n = n" by (subst digit_sum.simps) simp
    with True "1.prems" show ?thesis
      by (subst decimal.simps) (simp add: Number_of_digit plus_number_exact del: plus_number.simps)
  next
    case False
    then have split: "digit_sum n = digit_sum (n div 10) + n mod 10"
      by (subst digit_sum.simps) simp
    with "1.prems" have small: "a + digit_sum (n div 10) \<le> 2 ^ 53"
      and sum: "a + digit_sum (n div 10) + n mod 10 \<le> 2 ^ 53" by simp_all
    from 1 False small have ih: "foldl ?add (Whole a) (decimal (n div 10))
        = Whole (a + digit_sum (n div 10))" by simp
    have "decimal n = decimal (n div 10) @ [digit_unit (n mod 10)]"
      using False by (subst decimal.simps) simp
    then have "foldl ?add (Whole a) (decimal n)
        = ?add (foldl ?add (Whole a) (decimal (n div 10))) (digit_unit (n mod 10))"
      by simp
    also have "\<dots> = plus_number (Whole (a + digit_sum (n div 10))) (Whole (n mod 10))"
      by (simp add: ih Number_of_digit del: plus_number.simps)
    also have "\<dots> = Whole (a + digit_sum (n div 10) + n mod 10)"
      using sum by (rule plus_number_exact)
    also have "\<dots> = Whole (a + digit_sum n)"
      by (simp add: split)
    finally show ?thesis .
  qed
qed

lemma fold_NaN: "foldl (\<lambda>sum digit. plus_number sum (Number_of_unit digit)) NaN ds = NaN"
  by (induction ds) simp_all

lemma plus_number_NaN: "plus_number x NaN = NaN"
  by (cases x) simp_all

lemma Number_of_e: "Number_of_unit 0x65 = NaN"
  by (simp add: Number_of_unit_def is_digit_def is_space_def)

lemma fold_exponent:
  "foldl (\<lambda>sum digit. plus_number sum (Number_of_unit digit)) acc
     (xs @ [0x65, 0x2B] @ ys) = NaN"
  by (simp add: Number_of_e plus_number_NaN fold_NaN)

lemma digit_step_printed:
  "digit_step (Whole n) =
     (if shortest_decimal n < 10 ^ 21 then Whole (digit_sum (shortest_decimal n)) else NaN)"
proof (cases "shortest_decimal n < 10 ^ 21")
  case True
  then have "digit_sum (shortest_decimal n) \<le> 189" by (rule digit_sum_printed)
  then have "0 + digit_sum (shortest_decimal n) \<le> 2 ^ 53" by simp
  then have "foldl (\<lambda>sum digit. plus_number sum (Number_of_unit digit)) (Whole 0)
      (decimal (shortest_decimal n)) = Whole (0 + digit_sum (shortest_decimal n))"
    by (rule fold_decimal)
  with True show ?thesis by (simp add: digit_step_def)
next
  case False
  then have "Number_toString (Whole n) = exponential (shortest_decimal n)" by simp
  moreover obtain xs ys where "exponential (shortest_decimal n) = xs @ [0x65, 0x2B] @ ys"
    unfolding exponential_def Let_def by blast
  ultimately have "digit_step (Whole n) = NaN" by (simp only: digit_step_def fold_exponent)
  with False show ?thesis by simp
qed

lemma digit_step_decimal: "n \<le> 2 ^ 53 \<Longrightarrow> digit_step (Whole n) = Whole (digit_sum n)"
  by (simp add: digit_step_printed shortest_decimal_exact)

subsection \<open>The loop of reduceNumber\<close>

lemma reduceNumber_small: "n < 10 \<Longrightarrow> reduceNumber (Whole n) = Some (Whole n)"
  by (subst reduceNumber.simps) simp

lemma reduceNumber_NaN: "reduceNumber NaN = Some NaN"
  by (subst reduceNumber.simps) simp

lemma reduceNumber_decimal:
  "n \<le> 2 ^ 53 \<Longrightarrow> reduceNumber (Whole n) = Some (Whole (repeat_digit_sum n))"
proof (induction n rule: repeat_digit_sum.induct)
  case (1 n)
  show ?case
  proof (cases "n < 10")
    case True
    then show ?thesis
      by (subst repeat_digit_sum.simps) (simp add: reduceNumber_small)
  next
    case False
    then have "digit_sum n < n" by (simp add: digit_sum_less)
    with "1.prems" have "digit_sum n \<le> 2 ^ 53" by simp
    with 1 False have ih:
      "reduceNumber (Whole (digit_sum n)) = Some (Whole (repeat_digit_sum (digit_sum n)))"
      by simp
    have "reduceNumber (Whole n) = reduceNumber (digit_step (Whole n))"
      using False by (subst reduceNumber.simps) simp
    also have "\<dots> = reduceNumber (Whole (digit_sum n))"
      using "1.prems" by (simp only: digit_step_decimal)
    also note ih
    also have "repeat_digit_sum (digit_sum n) = repeat_digit_sum n"
      using False by (subst (2) repeat_digit_sum.simps) simp
    finally show ?thesis .
  qed
qed

lemma reduceNumber_closed:
  "n \<le> 2 ^ 53 \<Longrightarrow> reduceNumber (Whole n) = Some (Whole (digital_root n))"
  by (simp add: reduceNumber_decimal repeat_digit_sum_closed)

lemma reduceNumber_step:
  assumes "10 \<le> n"
  shows "reduceNumber (Whole n) =
     (if shortest_decimal n < 10 ^ 21
      then Some (Whole (digital_root (digit_sum (shortest_decimal n))))
      else Some NaN)"
proof -
  have step: "reduceNumber (Whole n) = reduceNumber (digit_step (Whole n))"
    using assms by (subst reduceNumber.simps) simp
  show ?thesis
  proof (cases "shortest_decimal n < 10 ^ 21")
    case True
    then have "digit_sum (shortest_decimal n) \<le> 189" by (rule digit_sum_printed)
    then have "digit_sum (shortest_decimal n) \<le> 2 ^ 53" by simp
    then have "reduceNumber (Whole (digit_sum (shortest_decimal n)))
        = Some (Whole (digital_root (digit_sum (shortest_decimal n))))"
      by (rule reduceNumber_closed)
    with True step show ?thesis by (simp add: digit_step_printed)
  next
    case False
    with step show ?thesis by (simp add: digit_step_printed reduceNumber_NaN)
  qed
qed

lemma reduceNumber_returns: "\<exists>r. reduceNumber n = Some r"
proof (cases n)
  case (Whole k)
  show ?thesis
  proof (cases "k < 10")
    case True
    with Whole show ?thesis by (simp add: reduceNumber_small)
  next
    case False
    then have "10 \<le> k" by simp
    with Whole show ?thesis by (simp add: reduceNumber_step)
  qed
next
  case NaN
  then show ?thesis by (simp add: reduceNumber_NaN)
qed

lemma reduceNumber_range:
  assumes "0 < n" and "n < 10 ^ 21"
  shows "\<exists>r. reduceNumber (Whole n) = Some (Whole r) \<and> 1 \<le> r \<and> r \<le> 9"
proof (cases "n < 10")
  case True
  with assms(1) show ?thesis by (simp add: reduceNumber_small)
next
  case False
  then have big: "10 \<le> n" by simp
  have less: "shortest_decimal n < 10 ^ 21"
    using assms(2) by (rule shortest_decimal_less)
  have "0 < shortest_decimal n"
    using assms(1) by (rule shortest_decimal_pos)
  then have "0 < digit_sum (shortest_decimal n)" by (rule digit_sum_pos)
  then have "1 \<le> digital_root (digit_sum (shortest_decimal n)) \<and>
      digital_root (digit_sum (shortest_decimal n)) \<le> 9"
    by (rule digital_root_range)
  with big less show ?thesis by (simp add: reduceNumber_step)
qed

lemma reduceNumber_zero: "reduceNumber (Whole n) = Some (Whole 0) \<longleftrightarrow> n = 0"
proof (cases "n < 10")
  case True
  then show ?thesis by (simp add: reduceNumber_small)
next
  case False
  then have big: "10 \<le> n" by simp
  then have "0 < shortest_decimal n" by (simp add: shortest_decimal_pos)
  then have "0 < digit_sum (shortest_decimal n)" by (rule digit_sum_pos)
  then have "digital_root (digit_sum (shortest_decimal n)) \<noteq> 0"
    by (simp add: digital_root_zero)
  with big show ?thesis by (simp add: reduceNumber_step)
qed

text \<open>From \<open>10 ^ 21\<close> on the printed value is in exponent notation and the loop ends with \<open>NaN\<close>.\<close>

lemma length_decimal_gt: "10 ^ k \<le> n \<Longrightarrow> k < length (decimal n)"
proof (induction k arbitrary: n)
  case 0
  show ?case by (rule decimal_length_pos)
next
  case (Suc k)
  have p: "(10::nat) ^ Suc k = 10 * 10 ^ k" by simp
  have q: "(1::nat) \<le> 10 ^ k" by simp
  from Suc.prems p q have big: "\<not> n < 10" by linarith
  from Suc.prems have "10 ^ k \<le> n div 10" by simp
  then have "k < length (decimal (n div 10))" by (rule Suc.IH)
  with big show ?case by (subst decimal.simps) simp
qed

lemma power_length_decimal_le: "0 < n \<Longrightarrow> 10 ^ (length (decimal n) - 1) \<le> n"
proof (induction n rule: decimal.induct)
  case (1 n)
  show ?case
  proof (cases "n < 10")
    case True
    with "1.prems" show ?thesis by (subst decimal.simps) simp
  next
    case False
    then have "0 < n div 10" by simp
    with 1 False have ih: "10 ^ (length (decimal (n div 10)) - 1) \<le> n div 10" by simp
    have "0 < length (decimal (n div 10))" by (rule decimal_length_pos)
    then have "(10::nat) ^ length (decimal (n div 10))
        = 10 * 10 ^ (length (decimal (n div 10)) - 1)"
      by (cases "length (decimal (n div 10))") simp_all
    also have "\<dots> \<le> 10 * (n div 10)" using ih by simp
    also have "\<dots> \<le> n" by simp
    finally show ?thesis using False by (subst decimal.simps) simp
  qed
qed

lemma accept_lower: "v \<in> set (accept x k j s) \<Longrightarrow> 10 ^ (k - 1 + j) \<le> v"
proof -
  assume "v \<in> set (accept x k j s)"
  then have v: "v = s * 10 ^ j" and lo: "10 ^ (k - 1) \<le> s"
    using accept_mem by blast+
  have "10 ^ (k - 1) * 10 ^ j \<le> s * 10 ^ j" using lo by simp
  then show ?thesis by (simp add: v power_add)
qed

lemma shortest_from_lower:
  "10 ^ (nd - 1) \<le> x \<Longrightarrow> 0 < k \<Longrightarrow> 10 ^ (nd - 1) \<le> shortest_from x nd k"
proof (induction x nd k rule: shortest_from.induct)
  case (1 x nd k)
  show ?case
  proof (cases "nd < k")
    case True
    with "1.prems" show ?thesis by (subst shortest_from.simps) simp
  next
    case False
    show ?thesis
    proof (cases "pick x (nd - k) (candidates x k (nd - k))")
      case None
      with 1 False show ?thesis by (subst shortest_from.simps) simp
    next
      case (Some v)
      then have "v \<in> set (candidates x k (nd - k))" by (rule pick_mem)
      then have "10 ^ (k - 1 + (nd - k)) \<le> v"
        using accept_lower by (auto simp: candidates_def)
      moreover have "k - 1 + (nd - k) = nd - 1" using False "1.prems"(2) by simp
      ultimately have "10 ^ (nd - 1) \<le> v" by simp
      with False Some show ?thesis by (subst shortest_from.simps) simp
    qed
  qed
qed

lemma shortest_decimal_exponent: "10 ^ 21 \<le> n \<Longrightarrow> 10 ^ 21 \<le> shortest_decimal n"
proof -
  assume n: "10 ^ 21 \<le> n"
  let ?nd = "length (decimal n)"
  have nd: "21 < ?nd" using n by (rule length_decimal_gt)
  then have a: "(10::nat) ^ 21 \<le> 10 ^ ?nd" by (intro power_increasing) simp_all
  from nd have "21 \<le> ?nd - 1" by simp
  then have b: "(10::nat) ^ 21 \<le> 10 ^ (?nd - 1)" by (intro power_increasing) simp_all
  have "0 < n" using n by (simp add: less_le_trans [of 0 "10 ^ 21"])
  then have "10 ^ (?nd - 1) \<le> n" by (rule power_length_decimal_le)
  then have "10 ^ (?nd - 1) \<le> shortest_from n ?nd 1" by (rule shortest_from_lower) simp
  with b have c: "10 ^ 21 \<le> shortest_from n ?nd 1" by (rule le_trans)
  have "\<not> n \<le> 2 ^ 53" using n by simp
  with a c show ?thesis by (simp only: shortest_decimal_def if_False split: if_split) simp
qed

lemma reduceNumber_exponential: "10 ^ 21 \<le> n \<Longrightarrow> reduceNumber (Whole n) = Some NaN"
proof -
  assume n: "10 ^ 21 \<le> n"
  then have "10 \<le> n" by simp
  moreover have "\<not> shortest_decimal n < 10 ^ 21"
    using shortest_decimal_exponent [OF n] by simp
  ultimately show ?thesis by (simp add: reduceNumber_step)
qed

text \<open>Two printed values above \<open>2 ^ 53\<close>, and the loop on the first.\<close>

lemma shortest_decimal_2_60: "shortest_decimal (2 ^ 60) = 1152921504606847000"
  by (simp add: shortest_decimal_def decimal.simps round_double_def bit_length.simps
      shortest_from.simps candidates_def accept_def)

lemma Number_toString_2_70:
  "Number_toString (Whole (2 ^ 70)) =
     [0x31, 0x2E, 0x31, 0x38, 0x30, 0x35, 0x39, 0x31, 0x36, 0x32, 0x30, 0x37, 0x31, 0x37, 0x34,
      0x31, 0x31, 0x33, 0x65, 0x2B, 0x32, 0x31]"
  by (simp add: shortest_decimal_def decimal.simps round_double_def bit_length.simps
      shortest_from.simps candidates_def accept_def exponential_def digit_unit_def)

lemma reduceNumber_2_60: "reduceNumber (Whole (2 ^ 60)) = Some (Whole 7)"
  by (simp add: reduceNumber.simps digit_step_def shortest_decimal_def decimal.simps
      round_double_def bit_length.simps shortest_from.simps candidates_def accept_def
      digit_unit_def Number_of_unit_def is_digit_def)

subsection \<open>Letters and tables\<close>

lemma string_iterator_length:
  "letter \<in> set (string_iterator w) \<Longrightarrow> length letter = 1 \<or> length letter = 2"
  by (induction w arbitrary: letter rule: string_iterator.induct) (auto split: if_splits)

lemma length_string_iterator: "length (string_iterator w) \<le> length w"
  by (induction w rule: string_iterator.induct) auto

lemma concat_string_iterator: "concat (string_iterator w) = w"
  by (induction w rule: string_iterator.induct) auto

lemma alphabet_dict_eq: "alphabet_dict = vowels @ consonants"
  by (simp add: alphabet_dict_def spread_def vowels_def consonants_def)

lemma vowels_key:
  "map_of vowels letter = Some v \<Longrightarrow> isGreekCapital letter \<and> 1 \<le> v \<and> v \<le> 9"
  by (auto simp: vowels_def split: if_splits)

lemma consonants_key:
  "map_of consonants letter = Some v \<Longrightarrow> isGreekCapital letter \<and> 1 \<le> v \<and> v \<le> 9"
  by (auto simp: consonants_def split: if_splits)

lemma vowels_not_consonants:
  "map_of vowels letter = Some v \<Longrightarrow> map_of consonants letter = None"
  by (auto simp: vowels_def consonants_def split: if_splits)

lemma alphabet_dict_lookup:
  "map_of alphabet_dict letter =
     (case map_of vowels letter of Some v \<Rightarrow> Some v | None \<Rightarrow> map_of consonants letter)"
  by (simp add: alphabet_dict_eq map_add_def split: option.splits)

lemma alphabet_dict_key:
  "map_of alphabet_dict letter = Some v \<Longrightarrow> isGreekCapital letter \<and> 1 \<le> v \<and> v \<le> 9"
  by (auto simp: alphabet_dict_lookup split: option.splits dest: vowels_key consonants_key)

subsection \<open>The loop of sumValues\<close>

lemma sumValues_loop_sum:
  "sumValues_loop letters table tot = tot + sum_list (map (contribution table) letters)"
  by (induction letters arbitrary: tot) (auto simp: contribution_def split: option.splits)

lemma contribution_alphabet_dict:
  "contribution alphabet_dict letter = contribution vowels letter + contribution consonants letter"
  by (auto simp: contribution_def alphabet_dict_lookup vowels_not_consonants split: option.splits)

lemma sum_contribution_alphabet_dict:
  "sum_list (map (contribution alphabet_dict) letters) =
     sum_list (map (contribution vowels) letters) + sum_list (map (contribution consonants) letters)"
  by (induction letters) (simp_all add: contribution_alphabet_dict)

lemma sumValues_split:
  "sumValues w alphabet_dict = sumValues w vowels + sumValues w consonants"
  by (simp add: sumValues_def sumValues_loop_sum sum_contribution_alphabet_dict)

lemma sumValues_unrecognized:
  "\<forall>letter \<in> set letters. map_of table letter = None \<Longrightarrow> sumValues_loop letters table tot = tot"
  by (induction letters arbitrary: tot) simp_all

lemma sumValues_recognized:
  assumes "letter \<in> set (string_iterator w)" and "map_of table letter = Some v" and "0 < v"
  shows "0 < sumValues w table"
proof -
  have "contribution table letter \<le> sum_list (map (contribution table) (string_iterator w))"
    using assms(1) by (simp add: member_le_sum_list)
  moreover have "contribution table letter = v"
    using assms(2) by (simp add: contribution_def)
  ultimately show ?thesis
    using assms(3) by (simp add: sumValues_def sumValues_loop_sum)
qed

lemma contribution_le9:
  "table = vowels \<or> table = consonants \<or> table = alphabet_dict \<Longrightarrow>
     contribution table letter \<le> 9"
  by (auto simp: contribution_def split: option.splits
           dest: vowels_key consonants_key alphabet_dict_key)

lemma sum_list_le9: "(\<And>x. f x \<le> (9::nat)) \<Longrightarrow> sum_list (map f xs) \<le> 9 * length xs"
  by (induction xs) (auto simp: add_le_mono)

lemma sumValues_le:
  assumes "table = vowels \<or> table = consonants \<or> table = alphabet_dict"
  shows "sumValues w table \<le> 9 * length w"
proof -
  have "sumValues w table \<le> 9 * length (string_iterator w)"
    using assms by (simp add: sumValues_def sumValues_loop_sum sum_list_le9 contribution_le9)
  also have "\<dots> \<le> 9 * length w"
    using length_string_iterator [of w] by simp
  finally show ?thesis .
qed

lemma sumValues_safe:
  assumes "table = vowels \<or> table = consonants \<or> table = alphabet_dict"
    and "length w \<le> 10 ^ 15"
  shows "sumValues w table \<le> MAX_SAFE_INTEGER"
proof -
  have "sumValues w table \<le> 9 * length w"
    using assms(1) by (rule sumValues_le)
  also have "\<dots> \<le> 9 * 10 ^ 15"
    using assms(2) by simp
  also have "\<dots> \<le> MAX_SAFE_INTEGER"
    by (simp add: MAX_SAFE_INTEGER_def)
  finally show ?thesis .
qed

lemma calculate_row_eq:
  assumes "sumValues w alphabet_dict \<le> MAX_SAFE_INTEGER"
  shows "calculate_row w =
     Some \<lparr>row_word = w,
           vowelSum = sumValues w vowels,
           vowelReduced = Whole (digital_root (sumValues w vowels)),
           consonantSum = sumValues w consonants,
           consonantReduced = Whole (digital_root (sumValues w consonants)),
           fullSum = sumValues w alphabet_dict,
           fullReduced = Whole (digital_root (sumValues w alphabet_dict))\<rparr>"
proof -
  have f: "sumValues w alphabet_dict \<le> 2 ^ 53"
    using assms by (rule MAX_SAFE_INTEGER_le)
  then have "sumValues w vowels \<le> 2 ^ 53" and "sumValues w consonants \<le> 2 ^ 53"
    by (simp_all add: sumValues_split)
  with f show ?thesis
    by (simp add: calculate_row_def Let_def reduceNumber_closed)
qed

lemma calculate_row_returns: "\<exists>r. calculate_row w = Some r"
proof -
  obtain vr where vr: "reduceNumber (Whole (sumValues w vowels)) = Some vr"
    using reduceNumber_returns by blast
  obtain cr where cr: "reduceNumber (Whole (sumValues w consonants)) = Some cr"
    using reduceNumber_returns by blast
  obtain fr where fr: "reduceNumber (Whole (sumValues w alphabet_dict)) = Some fr"
    using reduceNumber_returns by blast
  show ?thesis
    by (simp add: calculate_row_def Let_def vr cr fr)
qed

section \<open>The stated properties\<close>

subsection \<open>Digit reduction\<close>

text \<open>
  C1 (amended). For every non-negative integer \<open>n\<close> up to \<open>2 ^ 53 - 1\<close>,
  \<open>reduceNumber(n)\<close> returns the result of repeatedly replacing \<open>n\<close> by the sum of its
  decimal digits until the value is below 10, which is 0 for \<open>n = 0\<close> and
  \<open>1 + (n - 1) mod 9\<close> for positive \<open>n\<close>.
\<close>

theorem reduceNumber_repeat_digit_sum:
  "n \<le> MAX_SAFE_INTEGER \<Longrightarrow>
     reduceNumber (Whole n) = Some (Whole (repeat_digit_sum n)) \<and>
     reduceNumber (Whole n) = Some (Whole (if n = 0 then 0 else 1 + (n - 1) mod 9))"
proof -
  assume "n \<le> MAX_SAFE_INTEGER"
  then have n: "n \<le> 2 ^ 53" by (rule MAX_SAFE_INTEGER_le)
  have "reduceNumber (Whole n) = Some (Whole (repeat_digit_sum n))"
    using n by (rule reduceNumber_decimal)
  moreover have "repeat_digit_sum n = (if n = 0 then 0 else 1 + (n - 1) mod 9)"
    by (simp add: repeat_digit_sum_closed digital_root_def)
  ultimately show ?thesis by simp
qed

theorem reduceNumber_repeat_digit_sum_witness:
  "(9875 :: nat) \<le> MAX_SAFE_INTEGER \<and>
   repeat_digit_sum 9875 = 2 \<and> reduceNumber (Whole 9875) = Some (Whole 2)"
proof -
  have h: "(9875 :: nat) \<le> MAX_SAFE_INTEGER" by (simp add: MAX_SAFE_INTEGER_def)
  have r: "repeat_digit_sum 9875 = 2"
    by (simp add: repeat_digit_sum.simps digit_sum.simps)
  show ?thesis using h r reduceNumber_repeat_digit_sum [OF h] by simp
qed

text \<open>
  As stated for every non-negative integer, C1 fails: \<open>10 ^ 21\<close> is printed as \<open>1e+21\<close>,
  the letter \<open>e\<close> converts to \<open>NaN\<close>, the sum is \<open>NaN\<close>, and the loop ends with it.
  Between \<open>2 ^ 53\<close> and \<open>10 ^ 21\<close> the result is a digit, but of the printed value:
  \<open>reduceNumber_2_60\<close> above gives 7 for \<open>2 ^ 60\<close>, whose own digits reduce to 1.
\<close>

theorem reduceNumber_closed_form_counterexample:
  "reduceNumber (Whole (10 ^ 21)) = Some NaN \<and>
   reduceNumber (Whole (10 ^ 21)) \<noteq> Some (Whole (1 + (10 ^ 21 - 1) mod 9))"
  by (simp add: reduceNumber.simps digit_step_def shortest_decimal_def decimal.simps
      round_double_def bit_length.simps shortest_from.simps candidates_def accept_def
      exponential_def digit_unit_def Number_of_unit_def is_digit_def is_space_def)

text \<open>
  C8. Reduction leaves a single digit as it is: for every \<open>d\<close> from 0 to 9,
  \<open>reduceNumber(d) = d\<close>.
\<close>

theorem reduceNumber_single_digit:
  "d \<le> 9 \<Longrightarrow> reduceNumber (Whole d) = Some (Whole d)"
  by (subst reduceNumber.simps) simp

theorem reduceNumber_single_digit_witness:
  "(9 :: nat) \<le> 9 \<and> reduceNumber (Whole 9) = Some (Whole 9)"
  using reduceNumber_single_digit [of 9] by simp

text \<open>
  C9 (amended). For every positive integer \<open>n\<close> below \<open>10 ^ 21\<close>, \<open>reduceNumber(n)\<close> lies
  between 1 and 9; for every non-negative integer \<open>n\<close>, \<open>reduceNumber(n)\<close> is 0 if and only
  if \<open>n\<close> is 0; so for each of the three tables, a word with at least one letter that is a
  key of the table has a positive sum and a reduced value other than 0, which lies between
  1 and 9 for every word of up to \<open>10 ^ 15\<close> code units.
\<close>

theorem reduceNumber_nonzero:
  "(0 < n \<and> n < 10 ^ 21 \<longrightarrow>
      (\<exists>r. reduceNumber (Whole n) = Some (Whole r) \<and> 1 \<le> r \<and> r \<le> 9)) \<and>
   (reduceNumber (Whole n) = Some (Whole 0) \<longleftrightarrow> n = 0) \<and>
   ((table = vowels \<or> table = consonants \<or> table = alphabet_dict) \<and>
    letter \<in> set (string_iterator w) \<and> map_of table letter \<noteq> None \<longrightarrow>
      0 < sumValues w table \<and>
      (\<exists>r. reduceNumber (Whole (sumValues w table)) = Some r \<and> r \<noteq> Whole 0) \<and>
      (length w \<le> 10 ^ 15 \<longrightarrow>
         (\<exists>r. reduceNumber (Whole (sumValues w table)) = Some (Whole r) \<and> 1 \<le> r \<and> r \<le> 9)))"
proof (intro conjI impI)
  assume "0 < n \<and> n < 10 ^ 21"
  then show "\<exists>r. reduceNumber (Whole n) = Some (Whole r) \<and> 1 \<le> r \<and> r \<le> 9"
    using reduceNumber_range [of n] by simp
next
  show "reduceNumber (Whole n) = Some (Whole 0) \<longleftrightarrow> n = 0"
    by (rule reduceNumber_zero)
next
  assume a: "(table = vowels \<or> table = consonants \<or> table = alphabet_dict) \<and>
    letter \<in> set (string_iterator w) \<and> map_of table letter \<noteq> None"
  then obtain v where v: "map_of table letter = Some v" by auto
  with a have "0 < v"
    using vowels_key [of letter v] consonants_key [of letter v] alphabet_dict_key [of letter v]
    by auto
  with a v show pos: "0 < sumValues w table"
    using sumValues_recognized [of letter w table v] by simp
  obtain r where r: "reduceNumber (Whole (sumValues w table)) = Some r"
    using reduceNumber_returns by blast
  with pos have "r \<noteq> Whole 0"
    using reduceNumber_zero [of "sumValues w table"] by auto
  with r show "\<exists>r. reduceNumber (Whole (sumValues w table)) = Some r \<and> r \<noteq> Whole 0"
    by simp
  assume "length w \<le> 10 ^ 15"
  with a have "sumValues w table \<le> MAX_SAFE_INTEGER"
    by (simp add: sumValues_safe)
  then have "sumValues w table < 10 ^ 21"
    by (simp add: MAX_SAFE_INTEGER_def)
  with pos show
    "\<exists>r. reduceNumber (Whole (sumValues w table)) = Some (Whole r) \<and> 1 \<le> r \<and> r \<le> 9"
    by (rule reduceNumber_range)
qed

theorem reduceNumber_nonzero_witness:
  "(0 :: nat) < 2 ^ 60 \<and> (2 :: nat) ^ 60 < 10 ^ 21 \<and>
   reduceNumber (Whole (2 ^ 60)) = Some (Whole 7) \<and>
   [0x0397] \<in> set (string_iterator [0x0061, 0x0397]) \<and> map_of vowels [0x0397] = Some 7 \<and>
   length [0x0061 :: code_unit, 0x0397] \<le> 10 ^ 15 \<and>
   0 < sumValues [0x0061, 0x0397] vowels \<and>
   reduceNumber (Whole (sumValues [0x0061, 0x0397] vowels)) = Some (Whole 7)"
proof -
  have h: "(0 :: nat) < 2 ^ 60 \<and> (2 :: nat) ^ 60 < 10 ^ 21"
    by simp
  have k: "(vowels = vowels \<or> vowels = consonants \<or> vowels = alphabet_dict) \<and>
      [0x0397] \<in> set (string_iterator [0x0061, 0x0397]) \<and> map_of vowels [0x0397] \<noteq> None"
    by (simp add: vowels_def isLeadSurrogate_def)
  have l: "length [0x0061 :: code_unit, 0x0397] \<le> 10 ^ 15"
    by simp
  have s: "sumValues [0x0061, 0x0397] vowels = 7"
    by (simp add: sumValues_def vowels_def isLeadSurrogate_def)
  have t: "reduceNumber (Whole 7) = Some (Whole 7)"
    by (rule reduceNumber_small) simp
  from reduceNumber_nonzero [of "2 ^ 60" vowels "[0x0397]" "[0x0061, 0x0397]"] h k l
  have "\<exists>r. reduceNumber (Whole (2 ^ 60)) = Some (Whole r) \<and> 1 \<le> r \<and> r \<le> 9"
    and "0 < sumValues [0x0061, 0x0397] vowels"
    and "\<exists>r. reduceNumber (Whole (sumValues [0x0061, 0x0397] vowels)) = Some (Whole r)
      \<and> 1 \<le> r \<and> r \<le> 9"
    by blast+
  with h k l s t reduceNumber_2_60 show ?thesis by (simp add: vowels_def)
qed

text \<open>
  As stated for every positive integer, C9 fails: \<open>2 * 10 ^ 21\<close> is printed as \<open>2e+21\<close>
  and reduces to \<open>NaN\<close>, which is not a number from 1 to 9. By
  \<open>reduceNumber_exponential\<close> the same happens for every integer from \<open>10 ^ 21\<close> on.
\<close>

theorem reduceNumber_range_counterexample:
  "reduceNumber (Whole (2 * 10 ^ 21)) = Some NaN \<and> NaN \<notin> Whole ` {1..9}"
  by (simp add: reduceNumber.simps digit_step_def shortest_decimal_def decimal.simps
      round_double_def bit_length.simps shortest_from.simps candidates_def accept_def
      exponential_def digit_unit_def Number_of_unit_def is_digit_def is_space_def
      image_iff)

text \<open>
  C10 (amended). Digit reduction is compatible with addition: for all non-negative integers
  \<open>a\<close> and \<open>b\<close> with \<open>a + b\<close> at most \<open>2 ^ 53 - 1\<close>,
  \<open>reduceNumber(a + b) = reduceNumber(reduceNumber(a) + reduceNumber(b))\<close>; in particular,
  for every word whose total sum is at most \<open>2 ^ 53 - 1\<close>, the reduced total of its row
  equals \<open>reduceNumber\<close> of the reduced vowel sum plus the reduced consonant sum. By
  \<open>sumValues_safe\<close> that covers every word of up to \<open>10 ^ 15\<close> code units.
\<close>

theorem reduceNumber_add:
  "(a + b \<le> MAX_SAFE_INTEGER \<longrightarrow>
      reduceNumber (plus_number (Whole a) (Whole b)) =
        do { ra \<leftarrow> reduceNumber (Whole a);
             rb \<leftarrow> reduceNumber (Whole b);
             reduceNumber (plus_number ra rb) }) \<and>
   (sumValues w alphabet_dict \<le> MAX_SAFE_INTEGER \<longrightarrow>
      (\<exists>r. calculate_row w = Some r \<and>
           reduceNumber (plus_number (vowelReduced r) (consonantReduced r)) = Some (fullReduced r)))"
proof (intro conjI impI)
  assume "a + b \<le> MAX_SAFE_INTEGER"
  then have ab: "a + b \<le> 2 ^ 53" by (rule MAX_SAFE_INTEGER_le)
  then have a: "a \<le> 2 ^ 53" and b: "b \<le> 2 ^ 53" by simp_all
  have "digital_root a + digital_root b \<le> 9 + 9"
    by (intro add_mono digital_root_le9)
  then have r: "digital_root a + digital_root b \<le> 2 ^ 53" by simp
  have "reduceNumber (plus_number (Whole a) (Whole b)) = Some (Whole (digital_root (a + b)))"
    using ab by (simp only: plus_number_exact reduceNumber_closed)
  moreover have "do { ra \<leftarrow> reduceNumber (Whole a);
             rb \<leftarrow> reduceNumber (Whole b);
             reduceNumber (plus_number ra rb) }
      = Some (Whole (digital_root (digital_root a + digital_root b)))"
    using a b r by (simp only: reduceNumber_closed bind.bind_lunit plus_number_exact)
  ultimately show "reduceNumber (plus_number (Whole a) (Whole b)) =
        do { ra \<leftarrow> reduceNumber (Whole a);
             rb \<leftarrow> reduceNumber (Whole b);
             reduceNumber (plus_number ra rb) }"
    by (simp only: digital_root_add)
next
  assume safe: "sumValues w alphabet_dict \<le> MAX_SAFE_INTEGER"
  let ?v = "sumValues w vowels" and ?c = "sumValues w consonants"
  have "digital_root ?v + digital_root ?c \<le> 9 + 9"
    by (intro add_mono digital_root_le9)
  then have small: "digital_root ?v + digital_root ?c \<le> 2 ^ 53" by simp
  then have "reduceNumber (Whole (digital_root ?v + digital_root ?c))
      = Some (Whole (digital_root (digital_root ?v + digital_root ?c)))"
    by (rule reduceNumber_closed)
  also have "\<dots> = Some (Whole (digital_root (sumValues w alphabet_dict)))"
    by (simp only: digital_root_add sumValues_split)
  finally show "\<exists>r. calculate_row w = Some r \<and>
      reduceNumber (plus_number (vowelReduced r) (consonantReduced r)) = Some (fullReduced r)"
    by (simp add: calculate_row_eq [OF safe] plus_number_exact [OF small]
        del: plus_number.simps)
qed

theorem reduceNumber_add_witness:
  "(38 :: nat) + 47 \<le> MAX_SAFE_INTEGER \<and>
   reduceNumber (plus_number (Whole 38) (Whole 47)) = Some (Whole 4) \<and>
   reduceNumber (Whole 38) = Some (Whole 2) \<and> reduceNumber (Whole 47) = Some (Whole 2) \<and>
   sumValues [0x039A, 0x0391, 0x039B, 0x0397] alphabet_dict \<le> MAX_SAFE_INTEGER \<and>
   (\<exists>r. calculate_row [0x039A, 0x0391, 0x039B, 0x0397] = Some r \<and>
        reduceNumber (plus_number (vowelReduced r) (consonantReduced r)) = Some (fullReduced r))"
proof -
  have h: "(38 :: nat) + 47 \<le> MAX_SAFE_INTEGER"
    by (simp add: MAX_SAFE_INTEGER_def)
  have k: "sumValues [0x039A, 0x0391, 0x039B, 0x0397] alphabet_dict \<le> MAX_SAFE_INTEGER"
    by (simp add: sumValues_def alphabet_dict_eq vowels_def consonants_def isLeadSurrogate_def
        MAX_SAFE_INTEGER_def)
  have t: "reduceNumber (Whole 38) = Some (Whole 2)" "reduceNumber (Whole 47) = Some (Whole 2)"
    "reduceNumber (Whole 4) = Some (Whole 4)"
    by (simp_all add: reduceNumber.simps digit_step_def shortest_decimal_def decimal.simps
        round_double_def bit_length.simps digit_unit_def Number_of_unit_def is_digit_def)
  from reduceNumber_add [of 38 47 "[0x039A, 0x0391, 0x039B, 0x0397]"] h k
  have "reduceNumber (plus_number (Whole 38) (Whole 47)) =
        do { ra \<leftarrow> reduceNumber (Whole 38);
             rb \<leftarrow> reduceNumber (Whole 47);
             reduceNumber (plus_number ra rb) }"
    and "\<exists>r. calculate_row [0x039A, 0x0391, 0x039B, 0x0397] = Some r \<and>
        reduceNumber (plus_number (vowelReduced r) (consonantReduced r)) = Some (fullReduced r)"
    by blast+
  with h k t show ?thesis by (simp add: round_double_exact)
qed

text \<open>
  As stated for all non-negative integers, C10 fails: \<open>5 * 10 ^ 20\<close> reduces to 5, and
  5 + 5 reduces to 1, but the sum of the two numbers is \<open>10 ^ 21\<close>, which reduces to \<open>NaN\<close>.
\<close>

theorem reduceNumber_add_counterexample:
  "reduceNumber (plus_number (Whole (5 * 10 ^ 20)) (Whole (5 * 10 ^ 20))) = Some NaN \<and>
   do { ra \<leftarrow> reduceNumber (Whole (5 * 10 ^ 20));
        rb \<leftarrow> reduceNumber (Whole (5 * 10 ^ 20));
        reduceNumber (plus_number ra rb) } = Some (Whole 1)"
  by (simp add: reduceNumber.simps digit_step_def shortest_decimal_def decimal.simps
      round_double_def bit_length.simps shortest_from.simps candidates_def accept_def
      exponential_def digit_unit_def Number_of_unit_def is_digit_def is_space_def)

subsection \<open>Summation over the tables\<close>

text \<open>
  C2. For every word, the sum over \<open>alphabet_dict\<close> is the vowel sum plus the consonant sum:
  \<open>sumValues(word, alphabet_dict) = sumValues(word, vowels) + sumValues(word, consonants)\<close>.
\<close>

theorem sumValues_alphabet_dict:
  "sumValues w alphabet_dict = sumValues w vowels + sumValues w consonants"
  by (rule sumValues_split)

text \<open>
  C4. The vowel table has 7 entries and the consonant table 17, with 24 distinct keys in
  all, each a Greek uppercase letter, no key in both tables, and every value between 1 and 9.
\<close>

theorem tables_shape:
  "length vowels = 7 \<and> length consonants = 17 \<and>
   distinct (map fst vowels) \<and> distinct (map fst consonants) \<and>
   set (map fst vowels) \<inter> set (map fst consonants) = {} \<and>
   length alphabet_dict = 24 \<and> distinct (map fst alphabet_dict) \<and>
   list_all isGreekCapital (map fst alphabet_dict) \<and>
   list_all (\<lambda>v. 1 \<le> v \<and> v \<le> 9) (map snd alphabet_dict)"
  by (simp add: alphabet_dict_eq) (simp add: vowels_def consonants_def)

text \<open>
  C5. For every word and every table, each letter of the word adds its table value to
  \<open>sumValues\<close> if it is a key of the table and nothing otherwise. In the three tables of the
  page only Greek capitals are keys: a Latin letter, a digit, a punctuation mark or a
  lowercase letter adds 0. \<open>sumValues\<close> has no failing branch: it returns this sum for every
  word.
\<close>

theorem sumValues_contributions:
  "sumValues w table = sum_list (map (contribution table) (string_iterator w)) \<and>
   (\<not> isGreekCapital letter \<longrightarrow>
      contribution vowels letter = 0 \<and> contribution consonants letter = 0 \<and>
      contribution alphabet_dict letter = 0)"
proof (intro conjI impI)
  show "sumValues w table = sum_list (map (contribution table) (string_iterator w))"
    by (simp add: sumValues_def sumValues_loop_sum)
next
  assume "\<not> isGreekCapital letter"
  then have "map_of vowels letter = None" and "map_of consonants letter = None"
    and "map_of alphabet_dict letter = None"
    using vowels_key [of letter] consonants_key [of letter] alphabet_dict_key [of letter]
    by (cases "map_of vowels letter", simp, blast,
        cases "map_of consonants letter", simp, blast,
        cases "map_of alphabet_dict letter", simp, blast)
  then show "contribution vowels letter = 0" and "contribution consonants letter = 0"
    and "contribution alphabet_dict letter = 0"
    by (simp_all add: contribution_def)
qed

theorem sumValues_contributions_witness:
  "\<not> isGreekCapital [0x0061] \<and>
   contribution vowels [0x0061] = 0 \<and> contribution consonants [0x0061] = 0 \<and>
   contribution alphabet_dict [0x0061] = 0 \<and>
   sumValues [0x0061, 0x0037, 0x0391, 0x0021, 0x03B1] alphabet_dict = 1"
proof -
  have n: "\<not> isGreekCapital [0x0061]"
    by simp
  have i: "string_iterator [0x0061, 0x0037, 0x0391, 0x0021, 0x03B1] =
      [[0x0061], [0x0037], [0x0391], [0x0021], [0x03B1]]"
    by (simp add: isLeadSurrogate_def)
  have c: "sum_list (map (contribution alphabet_dict)
      [[0x0061], [0x0037], [0x0391], [0x0021], [0x03B1]]) = 1"
    by (simp add: contribution_def alphabet_dict_eq vowels_def consonants_def)
  from sumValues_contributions
    [of "[0x0061, 0x0037, 0x0391, 0x0021, 0x03B1]" alphabet_dict "[0x0061]"] n
  show ?thesis by (simp only: i c simp_thms)
qed

text \<open>
  C7. For every word in which no letter is a key of the given table, the empty word among
  them, \<open>sumValues\<close> returns 0; when no letter is a key of \<open>alphabet_dict\<close>, all six
  numbers of the word's row are 0.
\<close>

theorem sumValues_unrecognized_zero:
  "((\<forall>letter \<in> set (string_iterator w). map_of table letter = None) \<longrightarrow>
      sumValues w table = 0) \<and>
   sumValues [] table = 0 \<and>
   ((\<forall>letter \<in> set (string_iterator w). map_of alphabet_dict letter = None) \<longrightarrow>
      calculate_row w =
        Some \<lparr>row_word = w, vowelSum = 0, vowelReduced = Whole 0, consonantSum = 0,
              consonantReduced = Whole 0, fullSum = 0, fullReduced = Whole 0\<rparr>) \<and>
   calculate_row [] =
     Some \<lparr>row_word = [], vowelSum = 0, vowelReduced = Whole 0, consonantSum = 0,
           consonantReduced = Whole 0, fullSum = 0, fullReduced = Whole 0\<rparr>"
proof (intro conjI impI)
  assume "\<forall>letter \<in> set (string_iterator w). map_of table letter = None"
  then show "sumValues w table = 0"
    by (simp add: sumValues_def sumValues_unrecognized)
next
  show "sumValues [] table = 0"
    by (simp add: sumValues_def)
next
  assume none: "\<forall>letter \<in> set (string_iterator w). map_of alphabet_dict letter = None"
  then have full: "sumValues w alphabet_dict = 0"
    by (simp add: sumValues_def sumValues_unrecognized)
  then have "sumValues w vowels = 0" and "sumValues w consonants = 0"
    by (simp_all add: sumValues_split)
  with full show "calculate_row w =
        Some \<lparr>row_word = w, vowelSum = 0, vowelReduced = Whole 0, consonantSum = 0,
              consonantReduced = Whole 0, fullSum = 0, fullReduced = Whole 0\<rparr>"
    by (simp add: calculate_row_def reduceNumber_small)
next
  show "calculate_row [] =
     Some \<lparr>row_word = [], vowelSum = 0, vowelReduced = Whole 0, consonantSum = 0,
           consonantReduced = Whole 0, fullSum = 0, fullReduced = Whole 0\<rparr>"
    by (simp add: calculate_row_def sumValues_def reduceNumber_small)
qed

theorem sumValues_unrecognized_zero_witness:
  "string_iterator [0x0061, 0x03B2, 0x0031] = [[0x0061], [0x03B2], [0x0031]] \<and>
   map_of alphabet_dict [0x0061] = None \<and> map_of alphabet_dict [0x03B2] = None \<and>
   map_of alphabet_dict [0x0031] = None \<and>
   sumValues [0x0061, 0x03B2, 0x0031] alphabet_dict = 0 \<and>
   calculate_row [0x0061, 0x03B2, 0x0031] =
     Some \<lparr>row_word = [0x0061, 0x03B2, 0x0031], vowelSum = 0, vowelReduced = Whole 0,
           consonantSum = 0, consonantReduced = Whole 0, fullSum = 0, fullReduced = Whole 0\<rparr>"
proof -
  have h: "\<forall>letter \<in> set (string_iterator [0x0061, 0x03B2, 0x0031]).
      map_of alphabet_dict letter = None"
    by (simp add: isLeadSurrogate_def alphabet_dict_eq vowels_def consonants_def)
  have k: "string_iterator [0x0061, 0x03B2, 0x0031] = [[0x0061], [0x03B2], [0x0031]]"
    "map_of alphabet_dict [0x0061] = None" "map_of alphabet_dict [0x03B2] = None"
    "map_of alphabet_dict [0x0031] = None"
    by (simp_all add: isLeadSurrogate_def alphabet_dict_eq vowels_def consonants_def)
  from sumValues_unrecognized_zero [of "[0x0061, 0x03B2, 0x0031]" alphabet_dict] h
  have "sumValues [0x0061, 0x03B2, 0x0031] alphabet_dict = 0"
    and "calculate_row [0x0061, 0x03B2, 0x0031] =
     Some \<lparr>row_word = [0x0061, 0x03B2, 0x0031], vowelSum = 0, vowelReduced = Whole 0,
           consonantSum = 0, consonantReduced = Whole 0, fullSum = 0, fullReduced = Whole 0\<rparr>"
    by blast+
  with k show ?thesis by simp
qed

subsection \<open>Rows\<close>

text \<open>
  C3. The word Alpha Beta has vowel sum 1, consonant sum 2 and total 3, each equal to its
  reduced value; the word Kappa Alpha Lamda Eta has vowel sum 8, consonant sum 3, total 11
  and reduced total 2.
\<close>

theorem calculate_row_literals:
  "calculate_row [0x0391, 0x0392] =
     Some \<lparr>row_word = [0x0391, 0x0392], vowelSum = 1, vowelReduced = Whole 1,
           consonantSum = 2, consonantReduced = Whole 2, fullSum = 3, fullReduced = Whole 3\<rparr> \<and>
   calculate_row [0x039A, 0x0391, 0x039B, 0x0397] =
     Some \<lparr>row_word = [0x039A, 0x0391, 0x039B, 0x0397], vowelSum = 8, vowelReduced = Whole 8,
           consonantSum = 3, consonantReduced = Whole 3, fullSum = 11, fullReduced = Whole 2\<rparr>"
proof -
  have s: "sumValues [0x0391, 0x0392] vowels = 1" "sumValues [0x0391, 0x0392] consonants = 2"
    "sumValues [0x0391, 0x0392] alphabet_dict = 3"
    "sumValues [0x039A, 0x0391, 0x039B, 0x0397] vowels = 8"
    "sumValues [0x039A, 0x0391, 0x039B, 0x0397] consonants = 3"
    "sumValues [0x039A, 0x0391, 0x039B, 0x0397] alphabet_dict = 11"
    by (simp_all add: sumValues_def isLeadSurrogate_def alphabet_dict_def spread_def
        vowels_def consonants_def)
  have r: "reduceNumber (Whole 11) = Some (Whole 2)"
    by (simp add: reduceNumber.simps digit_step_def shortest_decimal_def decimal.simps
        round_double_def bit_length.simps digit_unit_def Number_of_unit_def is_digit_def)
  show ?thesis
    by (simp add: calculate_row_def s r reduceNumber_small)
qed

subsection \<open>Totality\<close>

text \<open>
  C6. The core computation is total. \<open>sumValues\<close> is a recursion over the letters of the
  word and returns a number for every string, at most 9 for each code unit. The loop of \<open>reduceNumber\<close> ends for every
  Number: the digit sum of any \<open>n\<close> from 10 on is smaller than \<open>n\<close>, and it is what one
  round of the loop computes. So the row of a word is defined for every sequence of code units.
\<close>

theorem core_total:
  "sumValues w vowels \<le> 9 * length w \<and> sumValues w consonants \<le> 9 * length w \<and>
   sumValues w alphabet_dict \<le> 9 * length w \<and>
   (\<exists>r. reduceNumber n = Some r) \<and>
   (10 \<le> k \<longrightarrow> digit_sum k < k) \<and>
   (k \<le> MAX_SAFE_INTEGER \<longrightarrow> digit_step (Whole k) = Whole (digit_sum k)) \<and>
   (\<exists>r. calculate_row w = Some r)"
proof (intro conjI impI)
  show "sumValues w vowels \<le> 9 * length w" and "sumValues w consonants \<le> 9 * length w"
    and "sumValues w alphabet_dict \<le> 9 * length w"
    by (simp_all add: sumValues_le)
  show "\<exists>r. reduceNumber n = Some r" by (rule reduceNumber_returns)
  show "\<exists>r. calculate_row w = Some r" by (rule calculate_row_returns)
next
  assume "10 \<le> k"
  then show "digit_sum k < k" by (rule digit_sum_less)
next
  assume "k \<le> MAX_SAFE_INTEGER"
  then have "k \<le> 2 ^ 53" by (rule MAX_SAFE_INTEGER_le)
  then show "digit_step (Whole k) = Whole (digit_sum k)" by (rule digit_step_decimal)
qed

theorem core_total_witness:
  "(\<exists>r. reduceNumber (Whole 9875) = Some r) \<and>
   (10 :: nat) \<le> 9875 \<and> digit_sum 9875 < 9875 \<and>
   (9875 :: nat) \<le> MAX_SAFE_INTEGER \<and> digit_step (Whole 9875) = Whole 29 \<and>
   (\<exists>r. calculate_row [0x039A, 0x0391, 0x039B, 0x0397] = Some r)"
proof -
  have h: "(10 :: nat) \<le> 9875" "(9875 :: nat) \<le> MAX_SAFE_INTEGER"
    by (simp_all add: MAX_SAFE_INTEGER_def)
  have d: "digit_sum 9875 = 29"
    by (simp add: digit_sum.simps)
  from core_total [where w = "[0x039A, 0x0391, 0x039B, 0x0397]" and n = "Whole 9875"
      and k = 9875] h
  show ?thesis by (simp add: d)
qed

end
